theory Spec2Isabelle
  imports Main
begin

section \<open>The stream tokenizer of InFact (stream-tokenizer.h)\<close>

text \<open>
  A shallow embedding of the class \<open>StreamTokenizer\<close>. Every \<open>size_t\<close> of the header
  is a \<open>nat\<close>: the header adds one to the cursor only under \<open>next_token_idx_ < token_.size()\<close>
  and subtracts only after clamping, so no operation of the header wraps around.
  Arithmetic that a caller does on a \<open>size_t\<close> before a call can wrap; it is written
  with the wrap-around spelled out (\<open>size_t_times\<close>), for a \<open>size_t\<close> of 64 bits.
  A data member \<open>x_\<close> of the class is the record field \<open>x\<close>; the two exceptions are
  \<open>is_\<close>, which is \<open>istrm\<close>, and \<open>line_number_\<close>, which is \<open>line_count\<close> (the struct
  \<open>Token\<close> already has a field \<open>line_number\<close>). The accessor \<open>line_number()\<close> is
  \<open>lineNumber\<close>, and the two overloads of \<open>Rewind\<close> are \<open>Rewind\<close> and \<open>Rewind_n\<close>.
\<close>

subsection \<open>Tokens\<close>

datatype TokenType = EOF_TYPE | RESERVED_CHAR | RESERVED_WORD | STRING | NUMBER | IDENTIFIER

fun TypeName :: "TokenType \<Rightarrow> string" where
  "TypeName EOF_TYPE = ''EOF''"
| "TypeName RESERVED_CHAR = ''RESERVED_CHAR''"
| "TypeName RESERVED_WORD = ''RESERVED_WORD''"
| "TypeName STRING = ''STRING''"
| "TypeName NUMBER = ''NUMBER''"
| "TypeName IDENTIFIER = ''IDENTIFIER''"

record Token =
  tok :: string
  type :: TokenType
  start :: nat
  line_number :: nat
  curr_pos :: nat

definition default_reserved_words :: "string list" where
  "default_reserved_words =
     [''-'', ''nullptr'', ''NULL'', ''false'', ''true'', ''bool'', ''int'', ''double'',
      ''string'', ''bool[]'', ''int[]'', ''double[]'', ''string[]'']"

definition DEFAULT_RESERVED_CHARS :: string where
  "DEFAULT_RESERVED_CHARS = ''(){},=;/''"

subsection \<open>The state of a tokenizer\<close>

text \<open>
  The members that the classifier \<open>GetNext\<close> reads and writes (the byte stream, the
  reserved characters and words, and the "information about the current state of the
  underlying byte stream") form the record \<open>source_state\<close>; the token history and the
  cursor are the two other members. The type \<open>'is\<close> is the state of the \<open>istream\<close>.
\<close>

record 'is source_state =
  istrm :: 'is
  reserved_chars :: string
  reserved_words :: "string set"
  num_read :: nat
  line_count :: nat
  eof_reached :: bool
  oss :: string

record 'is StreamTokenizer =
  source :: "'is source_state"
  token :: "Token list"
  next_token_idx :: nat

subsection \<open>Errors and the classifier\<close>

datatype error = Fatal string

text \<open>
  Modelled from the spec: the function \<open>Error\<close> is declared in error.h, which is not
  part of the header. By the spec (External interfaces, Error collaborator) it is
  "a fatal-error reporting function taking a descriptive message" and "this call does
  not return control to the tokenizer": a call of \<open>Error\<close> ends the operation with the
  message as its result.
\<close>

definition Error :: "string \<Rightarrow> error + 'a" where
  "Error message = Inl (Fatal message)"

text \<open>
  The body of \<open>GetNext\<close> is not part of the header, so the classifier is a parameter of
  every operation that calls it. From the header, \<open>bool GetNext(Token *next)\<close> either
  fills in a token and returns true, or returns false; from the spec it may also
  escalate a malformed lexeme to \<open>Error\<close>, which is the result \<open>Inl\<close>.
\<close>

type_synonym 'is classifier = "'is source_state \<Rightarrow> error + (Token option \<times> 'is source_state)"

definition ReservedChar :: "'is source_state \<Rightarrow> char \<Rightarrow> bool" where
  "ReservedChar src c = (c \<in> set (reserved_chars src))"

subsection \<open>Construction\<close>

definition Init :: "'is classifier \<Rightarrow> string \<Rightarrow> 'is StreamTokenizer \<Rightarrow> error + 'is StreamTokenizer" where
  "Init GetNext rc s =
     (let src1 = (source s)\<lparr>reserved_chars := rc,
                   reserved_words := fold insert default_reserved_words (reserved_words (source s))\<rparr>
      in case GetNext src1 of
           Inl e \<Rightarrow> Inl e
         | Inr (Some next, src2) \<Rightarrow> Inr (s\<lparr>source := src2, token := token s @ [next]\<rparr>)
         | Inr (None, src2) \<Rightarrow> Inr (s\<lparr>source := src2\<rparr>))"

definition StreamTokenizer_new :: "'is classifier \<Rightarrow> 'is \<Rightarrow> string \<Rightarrow> error + 'is StreamTokenizer" where
  "StreamTokenizer_new GetNext strm rc =
     Init GetNext rc
       \<lparr>source = \<lparr>istrm = strm, reserved_chars = [], reserved_words = {}, num_read = 0,
                  line_count = 0, eof_reached = False, oss = []\<rparr>,
        token = [], next_token_idx = 0\<rparr>"

definition set_reserved_words :: "string set \<Rightarrow> 'is StreamTokenizer \<Rightarrow> 'is StreamTokenizer" where
  "set_reserved_words ws s = s\<lparr>source := (source s)\<lparr>reserved_words := ws\<rparr>\<rparr>"

subsection \<open>Queries\<close>

definition str :: "'is StreamTokenizer \<Rightarrow> string" where
  "str s = oss (source s)"

definition HasNext :: "'is StreamTokenizer \<Rightarrow> bool" where
  "HasNext s = (next_token_idx s < length (token s))"

definition HasPrev :: "'is StreamTokenizer \<Rightarrow> bool" where
  "HasPrev s = (next_token_idx s > 0)"

definition tellg :: "'is StreamTokenizer \<Rightarrow> nat" where
  "tellg s = (if HasPrev s then curr_pos (token s ! (next_token_idx s - 1)) else 0)"

definition lineNumber :: "'is StreamTokenizer \<Rightarrow> nat" where
  "lineNumber s =
     (if HasNext s then line_number (token s ! next_token_idx s) else line_count (source s))"

definition PeekPrev :: "'is StreamTokenizer \<Rightarrow> string" where
  "PeekPrev s = (if HasPrev s then tok (token s ! (next_token_idx s - 1)) else [])"

definition PeekPrevTokenStart :: "'is StreamTokenizer \<Rightarrow> nat" where
  "PeekPrevTokenStart s = (if HasPrev s then start (token s ! (next_token_idx s - 1)) else 0)"

definition PeekPrevTokenType :: "'is StreamTokenizer \<Rightarrow> TokenType" where
  "PeekPrevTokenType s =
     (if HasPrev s then type (token s ! (next_token_idx s - 1)) else EOF_TYPE)"

definition PeekTokenStart :: "'is StreamTokenizer \<Rightarrow> nat" where
  "PeekTokenStart s =
     (if HasNext s then start (token s ! next_token_idx s) else num_read (source s))"

definition PeekTokenType :: "'is StreamTokenizer \<Rightarrow> TokenType" where
  "PeekTokenType s = (if HasNext s then type (token s ! next_token_idx s) else EOF_TYPE)"

definition PeekTokenLineNumber :: "'is StreamTokenizer \<Rightarrow> nat" where
  "PeekTokenLineNumber s =
     (if HasNext s then line_number (token s ! next_token_idx s) else line_count (source s))"

definition Peek :: "'is StreamTokenizer \<Rightarrow> string" where
  "Peek s = (if HasNext s then tok (token s ! next_token_idx s) else [])"

subsection \<open>Moving the cursor\<close>

text \<open>
  \<open>Next\<close>: the check of \<open>HasNext\<close>, the attempt to read one token ahead when the cursor
  is about to run out of tokens, the guarded increment, and the text of the token at the
  index saved on entry.
\<close>

definition Next :: "'is classifier \<Rightarrow> 'is StreamTokenizer \<Rightarrow> error + (string \<times> 'is StreamTokenizer)" where
  "Next GetNext s =
     (if \<not> HasNext s then Error ''invoking StreamTokenizer::Next when HasNext returns false''
      else
        let curr_token_idx = next_token_idx s;
            fetched =
              (if \<not> eof_reached (source s) \<and> next_token_idx s + 1 = length (token s)
               then (case GetNext (source s) of
                       Inl e \<Rightarrow> Inl e
                     | Inr (Some next, src') \<Rightarrow> Inr (s\<lparr>source := src', token := token s @ [next]\<rparr>)
                     | Inr (None, src') \<Rightarrow> Inr (s\<lparr>source := src'\<rparr>))
               else Inr s)
        in case fetched of
             Inl e \<Rightarrow> Inl e
           | Inr s1 \<Rightarrow>
               let s2 = (if next_token_idx s1 < length (token s1)
                         then s1\<lparr>next_token_idx := next_token_idx s1 + 1\<rparr> else s1)
               in Inr (tok (token s2 ! curr_token_idx), s2))"

definition Rewind :: "'is StreamTokenizer \<Rightarrow> 'is StreamTokenizer" where
  "Rewind s = s\<lparr>next_token_idx := 0\<rparr>"

definition Rewind_n :: "nat \<Rightarrow> 'is StreamTokenizer \<Rightarrow> 'is StreamTokenizer" where
  "Rewind_n num_tokens s =
     (let num_tokens' = (if num_tokens > next_token_idx s then next_token_idx s else num_tokens)
      in s\<lparr>next_token_idx := next_token_idx s - num_tokens'\<rparr>)"

definition Putback :: "'is StreamTokenizer \<Rightarrow> 'is StreamTokenizer" where
  "Putback s = Rewind_n 1 s"

subsection \<open>The public interface as a transition system\<close>

text \<open>
  One constructor per public member function, with the value it returns. The member
  functions declared \<open>const\<close> return the state they were given.
\<close>

datatype call =
    Call_str | Call_tellg | Call_line_number | Call_HasNext | Call_HasPrev
  | Call_PeekPrev | Call_PeekPrevTokenStart | Call_PeekPrevTokenType
  | Call_Next | Call_Rewind | Call_Rewind_n nat | Call_Putback
  | Call_PeekTokenStart | Call_PeekTokenType | Call_PeekTokenLineNumber | Call_Peek
  | Call_set_reserved_words "string set"

datatype result = Void | Flag bool | Size nat | Text string | Kind TokenType

fun exec :: "'is classifier \<Rightarrow> call \<Rightarrow> 'is StreamTokenizer \<Rightarrow> error + (result \<times> 'is StreamTokenizer)" where
  "exec GetNext Call_str s = Inr (Text (str s), s)"
| "exec GetNext Call_tellg s = Inr (Size (tellg s), s)"
| "exec GetNext Call_line_number s = Inr (Size (lineNumber s), s)"
| "exec GetNext Call_HasNext s = Inr (Flag (HasNext s), s)"
| "exec GetNext Call_HasPrev s = Inr (Flag (HasPrev s), s)"
| "exec GetNext Call_PeekPrev s = Inr (Text (PeekPrev s), s)"
| "exec GetNext Call_PeekPrevTokenStart s = Inr (Size (PeekPrevTokenStart s), s)"
| "exec GetNext Call_PeekPrevTokenType s = Inr (Kind (PeekPrevTokenType s), s)"
| "exec GetNext Call_Next s =
     (case Next GetNext s of Inl e \<Rightarrow> Inl e | Inr (txt, s') \<Rightarrow> Inr (Text txt, s'))"
| "exec GetNext Call_Rewind s = Inr (Void, Rewind s)"
| "exec GetNext (Call_Rewind_n n) s = Inr (Void, Rewind_n n s)"
| "exec GetNext Call_Putback s = Inr (Void, Putback s)"
| "exec GetNext Call_PeekTokenStart s = Inr (Size (PeekTokenStart s), s)"
| "exec GetNext Call_PeekTokenType s = Inr (Kind (PeekTokenType s), s)"
| "exec GetNext Call_PeekTokenLineNumber s = Inr (Size (PeekTokenLineNumber s), s)"
| "exec GetNext Call_Peek s = Inr (Text (Peek s), s)"
| "exec GetNext (Call_set_reserved_words ws) s = Inr (Void, set_reserved_words ws s)"

text \<open>The states a program can reach: construction, then any calls that return.\<close>

inductive reachable :: "'is classifier \<Rightarrow> 'is StreamTokenizer \<Rightarrow> bool" for GetNext where
  constructed: "StreamTokenizer_new GetNext strm rc = Inr s \<Longrightarrow> reachable GetNext s"
| called: "reachable GetNext s \<Longrightarrow> exec GetNext c s = Inr (r, s') \<Longrightarrow> reachable GetNext s'"

text \<open>\<open>Next\<close> called \<open>k\<close> times in a row, collecting the texts it returns.\<close>

fun Next_times :: "'is classifier \<Rightarrow> nat \<Rightarrow> 'is StreamTokenizer \<Rightarrow> error + (string list \<times> 'is StreamTokenizer)" where
  "Next_times GetNext 0 s = Inr ([], s)"
| "Next_times GetNext (Suc k) s =
     (case Next GetNext s of
        Inl e \<Rightarrow> Inl e
      | Inr (txt, s') \<Rightarrow>
          (case Next_times GetNext k s' of
             Inl e \<Rightarrow> Inl e
           | Inr (txts, s'') \<Rightarrow> Inr (txt # txts, s'')))"

subsection \<open>What the claims speak of\<close>

definition buffered_at_cursor :: "'is StreamTokenizer \<Rightarrow> bool" where
  "buffered_at_cursor s = (drop (next_token_idx s) (token s) \<noteq> [])"

definition token_obtainable :: "'is classifier \<Rightarrow> 'is StreamTokenizer \<Rightarrow> bool" where
  "token_obtainable GetNext s =
     (case GetNext (source s) of Inr (Some t, src') \<Rightarrow> True | _ \<Rightarrow> False)"

text \<open>
  The largest \<open>size_t\<close> and the product of two \<open>size_t\<close> values as C++ computes it,
  modulo \<open>2^64\<close>: what a caller passes who writes \<open>Rewind(2 * n)\<close>.
\<close>

definition SIZE_MAX :: nat where
  "SIZE_MAX = 2 ^ 64 - 1"

definition size_t_times :: "nat \<Rightarrow> nat \<Rightarrow> nat" where
  "size_t_times a b = (a * b) mod 2 ^ 64"

definition at_last_slot :: "'is StreamTokenizer \<Rightarrow> bool" where
  "at_last_slot s = (next_token_idx s + 1 = length (token s))"

text \<open>
  Modelled from the spec: the body of \<open>GetNext\<close> is missing, and the spec fixes this much
  of it. The classifier produces the next token "or report[s] that no token is available
  (true end-of-input)", and "once the underlying source is exhausted, history length is
  fixed forever": a call that reports no token leaves the end-of-input flag set, and a
  call made with the flag set yields no token.
\<close>

definition classifier_contract :: "'is classifier \<Rightarrow> bool" where
  "classifier_contract GetNext =
     (\<forall>src. (\<forall>src'. GetNext src = Inr (None, src') \<longrightarrow> eof_reached src') \<and>
            (\<forall>t src'. eof_reached src \<longrightarrow> GetNext src \<noteq> Inr (Some t, src')))"

subsection \<open>A scripted source, for concrete runs\<close>

text \<open>
  Modelled from the spec: with the body of \<open>GetNext\<close> missing, concrete runs use a byte
  stream that is a script of what a classifier meets: a lexeme with the token it
  becomes, a run of insignificant content (whitespace, a comment) that is skipped
  without a token, or a malformed lexeme that is escalated to \<open>Error\<close>. At the end of
  the script the read fails: no token, and the end-of-input flag is set.
\<close>

datatype chunk = Lexeme Token | Blank string | Malformed string

fun read_script :: "chunk list \<Rightarrow> chunk list source_state \<Rightarrow> error + (Token option \<times> chunk list source_state)" where
  "read_script [] src = Inr (None, src\<lparr>istrm := [], eof_reached := True\<rparr>)"
| "read_script (Blank w # cs) src =
     read_script cs (src\<lparr>istrm := cs, num_read := num_read src + length w,
                        line_count := line_count src + count_list w (CHR 0x0A),
                        oss := oss src @ w\<rparr>)"
| "read_script (Lexeme t # cs) src =
     Inr (Some t, src\<lparr>istrm := cs, num_read := curr_pos t, oss := oss src @ tok t\<rparr>)"
| "read_script (Malformed message # cs) src = Error message"

definition scripted_GetNext :: "chunk list classifier" where
  "scripted_GetNext src =
     (if eof_reached src then Inr (None, src) else read_script (istrm src) src)"

definition tok_a :: Token where
  "tok_a = \<lparr>tok = ''a'', type = IDENTIFIER, start = 0, line_number = 0, curr_pos = 1\<rparr>"

definition tok_eq :: Token where
  "tok_eq = \<lparr>tok = ''='', type = RESERVED_CHAR, start = 2, line_number = 0, curr_pos = 3\<rparr>"

definition tok_b :: Token where
  "tok_b = \<lparr>tok = ''b'', type = IDENTIFIER, start = 4, line_number = 0, curr_pos = 5\<rparr>"

definition scripted_source :: "chunk list \<Rightarrow> nat \<Rightarrow> bool \<Rightarrow> string \<Rightarrow> chunk list source_state" where
  "scripted_source cs n eof seen =
     \<lparr>istrm = cs, reserved_chars = DEFAULT_RESERVED_CHARS,
      reserved_words = fold insert default_reserved_words {},
      num_read = n, line_count = 0, eof_reached = eof, oss = seen\<rparr>"

section \<open>Properties\<close>

subsection \<open>What a call of Next does\<close>

lemma Next_without_fetch:
  assumes "HasNext s" and "eof_reached (source s) \<or> \<not> at_last_slot s"
  shows "Next GetNext s =
           Inr (tok (token s ! next_token_idx s), s\<lparr>next_token_idx := next_token_idx s + 1\<rparr>)"
  using assms by (auto simp: Next_def HasNext_def at_last_slot_def)

lemma Next_fetch_token:
  assumes "HasNext s" and "\<not> eof_reached (source s)" and "at_last_slot s"
    and "GetNext (source s) = Inr (Some t, src')"
  shows "Next GetNext s =
           Inr (tok (token s ! next_token_idx s),
                s\<lparr>source := src', token := token s @ [t],
                  next_token_idx := next_token_idx s + 1\<rparr>)"
  using assms by (simp add: Next_def HasNext_def at_last_slot_def nth_append)

lemma Next_fetch_nothing:
  assumes "HasNext s" and "\<not> eof_reached (source s)" and "at_last_slot s"
    and "GetNext (source s) = Inr (None, src')"
  shows "Next GetNext s =
           Inr (tok (token s ! next_token_idx s),
                s\<lparr>source := src', next_token_idx := next_token_idx s + 1\<rparr>)"
  using assms by (simp add: Next_def HasNext_def at_last_slot_def)

lemma Next_fetch_fatal:
  assumes "HasNext s" and "\<not> eof_reached (source s)" and "at_last_slot s"
    and "GetNext (source s) = Inl e"
  shows "Next GetNext s = Inl e"
  using assms by (simp add: Next_def HasNext_def at_last_slot_def)

lemma Next_result:
  assumes "HasNext s"
  shows "if \<not> eof_reached (source s) \<and> at_last_slot s
         then (case GetNext (source s) of
                 Inl e \<Rightarrow> Next GetNext s = Inl e
               | Inr (Some t, src') \<Rightarrow>
                   Next GetNext s =
                     Inr (tok (token s ! next_token_idx s),
                          s\<lparr>source := src', token := token s @ [t],
                            next_token_idx := next_token_idx s + 1\<rparr>)
               | Inr (None, src') \<Rightarrow>
                   Next GetNext s =
                     Inr (tok (token s ! next_token_idx s),
                          s\<lparr>source := src', next_token_idx := next_token_idx s + 1\<rparr>))
         else Next GetNext s =
                Inr (tok (token s ! next_token_idx s),
                     s\<lparr>next_token_idx := next_token_idx s + 1\<rparr>)"
proof (cases "\<not> eof_reached (source s) \<and> at_last_slot s")
  case False
  then show ?thesis using Next_without_fetch [OF assms, of GetNext] by auto
next
  case True
  then have fetch: "\<not> eof_reached (source s)" "at_last_slot s" by simp_all
  show ?thesis
  proof (cases "GetNext (source s)")
    case (Inl e)
    then show ?thesis using True Next_fetch_fatal [OF assms fetch] by simp
  next
    case (Inr p)
    obtain r src' where p: "p = (r, src')" by (cases p)
    show ?thesis
    proof (cases r)
      case None
      then show ?thesis using True Inr p Next_fetch_nothing [OF assms fetch] by simp
    next
      case (Some t)
      then show ?thesis using True Inr p Next_fetch_token [OF assms fetch] by simp
    qed
  qed
qed

text \<open>
  The same as an elimination rule: the three ways in which \<open>Next\<close> returns, and the one
  in which it does not.
\<close>

lemma Next_cases [consumes 1, case_names plain fetched exhausted fatal]:
  assumes h: "HasNext s"
    and plain: "\<lbrakk>eof_reached (source s) \<or> \<not> at_last_slot s;
        Next GetNext s = Inr (tok (token s ! next_token_idx s), s\<lparr>next_token_idx := next_token_idx s + 1\<rparr>)\<rbrakk> \<Longrightarrow> P"
    and fetched: "\<And>t src'. \<lbrakk>\<not> eof_reached (source s); at_last_slot s; GetNext (source s) = Inr (Some t, src');
        Next GetNext s = Inr (tok (token s ! next_token_idx s),
                s\<lparr>source := src', token := token s @ [t], next_token_idx := next_token_idx s + 1\<rparr>)\<rbrakk> \<Longrightarrow> P"
    and exhausted: "\<And>src'. \<lbrakk>\<not> eof_reached (source s); at_last_slot s; GetNext (source s) = Inr (None, src');
        Next GetNext s = Inr (tok (token s ! next_token_idx s),
                s\<lparr>source := src', next_token_idx := next_token_idx s + 1\<rparr>)\<rbrakk> \<Longrightarrow> P"
    and fatal: "\<And>e. \<lbrakk>\<not> eof_reached (source s); at_last_slot s; GetNext (source s) = Inl e;
        Next GetNext s = Inl e\<rbrakk> \<Longrightarrow> P"
  shows P
proof (cases "eof_reached (source s) \<or> \<not> at_last_slot s")
  case True
  then show ?thesis using plain Next_without_fetch [OF h] by blast
next
  case False
  then have fetch: "\<not> eof_reached (source s)" "at_last_slot s" by simp_all
  show ?thesis
  proof (cases "GetNext (source s)")
    case (Inl e)
    then show ?thesis using fatal fetch Next_fetch_fatal [OF h fetch] by blast
  next
    case (Inr p)
    obtain r src' where p: "p = (r, src')" by (cases p)
    show ?thesis
    proof (cases r)
      case None
      then show ?thesis using exhausted [OF fetch] Inr p Next_fetch_nothing [OF h fetch] by blast
    next
      case (Some t)
      then show ?thesis using fetched [OF fetch] Inr p Next_fetch_token [OF h fetch] by blast
    qed
  qed
qed

lemma Next_HasNext: "Next GetNext s = Inr p \<Longrightarrow> HasNext s"
  by (auto simp: Next_def Error_def split: if_splits)

lemma Next_history:
  assumes n: "Next GetNext s = Inr (tx, s')"
  shows "take (length (token s)) (token s') = token s \<and> length (token s) \<le> length (token s')
         \<and> next_token_idx s' \<le> length (token s') \<and> next_token_idx s' = next_token_idx s + 1
         \<and> tx = tok (token s ! next_token_idx s)"
proof -
  have h: "HasNext s" using n by (rule Next_HasNext)
  from h show ?thesis
  proof (cases rule: Next_cases [where GetNext = GetNext])
    case plain
    then show ?thesis using n h by (auto simp: HasNext_def)
  next
    case (fetched t src')
    then show ?thesis using n h by (auto simp: HasNext_def)
  next
    case (exhausted src')
    then show ?thesis using n h by (auto simp: HasNext_def)
  next
    case (fatal e)
    then show ?thesis using n by simp
  qed
qed

text \<open>
  Claim C1, as the code has it. In every state in which \<open>HasNext()\<close> is true, \<open>Next()\<close>
  behaves as follows. If the cursor sits at the last buffered token and the end-of-input
  flag is not set, the classifier is invoked exactly once: the token it yields is
  appended to the history; when it reports no token, nothing is appended; when it
  escalates a fatal error, \<open>Next()\<close> does not return. Otherwise the classifier is not
  invoked, and the history and the source are as they were. Then the cursor advances by
  one, and the call returns the text of the token that was at the cursor when it began.
\<close>

theorem Next_behaviour:
  assumes "HasNext s"
  shows "if \<not> eof_reached (source s) \<and> at_last_slot s
         then (case GetNext (source s) of
                 Inl e \<Rightarrow> Next GetNext s = Inl e
               | Inr (Some t, src') \<Rightarrow>
                   Next GetNext s =
                     Inr (tok (token s ! next_token_idx s),
                          s\<lparr>source := src', token := token s @ [t],
                            next_token_idx := next_token_idx s + 1\<rparr>)
               | Inr (None, src') \<Rightarrow>
                   Next GetNext s =
                     Inr (tok (token s ! next_token_idx s),
                          s\<lparr>source := src', next_token_idx := next_token_idx s + 1\<rparr>))
         else Next GetNext s =
                Inr (tok (token s ! next_token_idx s),
                     s\<lparr>next_token_idx := next_token_idx s + 1\<rparr>)"
  using assms by (rule Next_result)

text \<open>
  The claim as the spec words it promises a new token in the history whenever the cursor
  is at the last slot and the source is not yet exhausted. A tokenizer built on the
  lexeme \<open>a\<close> followed by one blank is in such a state (the blank is still unread and
  the end-of-input flag is not set), and its \<open>Next()\<close> returns \<open>a\<close> with the history as
  long as before: the classifier skipped the blank and found the end of the input.
\<close>

theorem Next_behaviour_counterexample:
  "StreamTokenizer_new scripted_GetNext [Lexeme tok_a, Blank '' ''] DEFAULT_RESERVED_CHARS =
     Inr \<lparr>source = scripted_source [Blank '' ''] 1 False ''a'', token = [tok_a], next_token_idx = 0\<rparr>
   \<and> HasNext \<lparr>source = scripted_source [Blank '' ''] 1 False ''a'', token = [tok_a], next_token_idx = 0\<rparr>
   \<and> at_last_slot \<lparr>source = scripted_source [Blank '' ''] 1 False ''a'', token = [tok_a], next_token_idx = 0\<rparr>
   \<and> \<not> eof_reached (scripted_source [Blank '' ''] 1 False ''a'')
   \<and> Next scripted_GetNext
        \<lparr>source = scripted_source [Blank '' ''] 1 False ''a'', token = [tok_a], next_token_idx = 0\<rparr> =
      Inr (''a'', \<lparr>source = scripted_source [] 2 True ''a '', token = [tok_a], next_token_idx = 1\<rparr>)"
  by (simp add: StreamTokenizer_new_def Init_def scripted_GetNext_def scripted_source_def
      HasNext_def at_last_slot_def Next_def tok_a_def)

theorem Next_behaviour_witness:
  "HasNext \<lparr>source = scripted_source [Lexeme tok_eq] 1 False ''a'', token = [tok_a], next_token_idx = 0\<rparr>
   \<and> Next scripted_GetNext
        \<lparr>source = scripted_source [Lexeme tok_eq] 1 False ''a'', token = [tok_a], next_token_idx = 0\<rparr> =
      Inr (''a'', \<lparr>source = scripted_source [] 3 False ''a='', token = [tok_a, tok_eq], next_token_idx = 1\<rparr>)"
  using Next_behaviour [of "\<lparr>source = scripted_source [Lexeme tok_eq] 1 False ''a'', token = [tok_a], next_token_idx = 0\<rparr>" scripted_GetNext]
  by (simp add: HasNext_def at_last_slot_def scripted_GetNext_def scripted_source_def tok_a_def tok_eq_def)

text \<open>
  Claim C2. In every state in which \<open>HasNext()\<close> is false, \<open>Next()\<close> reports the fatal
  error "invoking StreamTokenizer::Next when HasNext returns false" and returns no token.
\<close>

theorem Next_protocol_violation:
  assumes "\<not> HasNext s"
  shows "Next GetNext s = Inl (Fatal ''invoking StreamTokenizer::Next when HasNext returns false'')
         \<and> exec GetNext Call_Next s =
             Inl (Fatal ''invoking StreamTokenizer::Next when HasNext returns false'')"
  using assms by (simp add: Next_def Error_def)

theorem Next_protocol_violation_witness:
  "\<not> HasNext \<lparr>source = scripted_source [] 2 True ''a '', token = [tok_a], next_token_idx = 1\<rparr>
   \<and> Next scripted_GetNext
        \<lparr>source = scripted_source [] 2 True ''a '', token = [tok_a], next_token_idx = 1\<rparr> =
      Inl (Fatal ''invoking StreamTokenizer::Next when HasNext returns false'')"
  using Next_protocol_violation
    [of "\<lparr>source = scripted_source [] 2 True ''a '', token = [tok_a], next_token_idx = 1\<rparr>"
        scripted_GetNext]
  by (simp add: HasNext_def)

subsection \<open>The history and the cursor\<close>

text \<open>
  Claim C4. Every public operation, called in a state whose cursor is at most the length
  of the history, either returns or is a \<open>Next()\<close> that ended in a fatal error; when it
  returns, the old history is a prefix of the new one (it never shrinks, and only
  \<open>Next()\<close> changes it at all) and the cursor is again at most the length of the history.
\<close>

theorem exec_keeps_history:
  assumes "next_token_idx s \<le> length (token s)"
  shows "case exec GetNext c s of
           Inl e \<Rightarrow> c = Call_Next
         | Inr (r, s') \<Rightarrow>
             take (length (token s)) (token s') = token s
             \<and> length (token s) \<le> length (token s')
             \<and> next_token_idx s' \<le> length (token s')
             \<and> (c \<noteq> Call_Next \<longrightarrow> token s' = token s)"
proof (cases c)
  case Call_Next
  show ?thesis
  proof (cases "Next GetNext s")
    case (Inl e)
    then show ?thesis using Call_Next by simp
  next
    case (Inr p)
    obtain tx s' where p: "p = (tx, s')" by (cases p)
    show ?thesis using Next_history [OF Inr [unfolded p]] Call_Next Inr p by simp
  qed
qed (insert assms, simp_all add: Rewind_def Rewind_n_def Putback_def set_reserved_words_def)

theorem exec_keeps_history_witness:
  "next_token_idx \<lparr>source = scripted_source [Lexeme tok_eq] 1 False ''a'', token = [tok_a], next_token_idx = 0\<rparr>
     \<le> length (token \<lparr>source = scripted_source [Lexeme tok_eq] 1 False ''a'', token = [tok_a], next_token_idx = 0\<rparr>)
   \<and> exec scripted_GetNext Call_Next
        \<lparr>source = scripted_source [Lexeme tok_eq] 1 False ''a'', token = [tok_a], next_token_idx = 0\<rparr> =
      Inr (Text ''a'', \<lparr>source = scripted_source [] 3 False ''a='', token = [tok_a, tok_eq], next_token_idx = 1\<rparr>)
   \<and> take 1 [tok_a, tok_eq] = [tok_a]"
  using exec_keeps_history
    [where s = "\<lparr>source = scripted_source [Lexeme tok_eq] 1 False ''a'', token = [tok_a], next_token_idx = 0\<rparr>"
       and GetNext = scripted_GetNext and c = Call_Next]
  by (simp add: HasNext_def at_last_slot_def scripted_GetNext_def scripted_source_def tok_a_def tok_eq_def Next_def)

subsection \<open>The token ahead\<close>

text \<open>
  With a classifier that keeps its contract, every reachable state has its cursor within
  the history, and at the end of the history only once the end-of-input flag is set.
\<close>

lemma exec_lookahead:
  assumes c: "classifier_contract GetNext"
    and inv: "next_token_idx s \<le> length (token s)"
             "next_token_idx s = length (token s) \<longrightarrow> eof_reached (source s)"
    and ex: "exec GetNext c s = Inr (r, s')"
  shows "next_token_idx s' \<le> length (token s')
         \<and> (next_token_idx s' = length (token s') \<longrightarrow> eof_reached (source s'))"
proof (cases c)
  case Call_Next
  then obtain tx where n: "Next GetNext s = Inr (tx, s')"
    using ex by (auto split: sum.splits)
  have h: "HasNext s" using n by (rule Next_HasNext)
  have none: "\<And>src'. GetNext (source s) = Inr (None, src') \<Longrightarrow> eof_reached src'"
    using c by (auto simp: classifier_contract_def)
  from h show ?thesis
  proof (cases rule: Next_cases [where GetNext = GetNext])
    case plain
    then show ?thesis using n h by (auto simp: HasNext_def at_last_slot_def)
  next
    case (fetched t src')
    then show ?thesis using n h by (auto simp: HasNext_def)
  next
    case (exhausted src')
    then show ?thesis using n h none by (auto simp: HasNext_def)
  next
    case (fatal e)
    then show ?thesis using n by simp
  qed
qed (insert inv ex, auto simp: Rewind_def Rewind_n_def Putback_def set_reserved_words_def)

lemma reachable_lookahead:
  assumes "classifier_contract GetNext" and "reachable GetNext s"
  shows "next_token_idx s \<le> length (token s)
         \<and> (next_token_idx s = length (token s) \<longrightarrow> eof_reached (source s))"
  using assms(2)
proof (induction rule: reachable.induct)
  case (constructed strm rc s)
  have none: "\<And>src src'. GetNext src = Inr (None, src') \<Longrightarrow> eof_reached src'"
    using assms(1) by (auto simp: classifier_contract_def)
  show ?case
    using constructed none
    by (auto simp: StreamTokenizer_new_def Init_def split: sum.splits option.splits prod.splits)
next
  case (called s c r s')
  then show ?case using exec_lookahead [OF assms(1) _ _ called(2)] by blast
qed

lemma read_script_nothing:
  "read_script cs src = Inr (None, src') \<Longrightarrow> eof_reached src'"
  by (induction cs src rule: read_script.induct) (auto simp: Error_def)

lemma scripted_GetNext_contract: "classifier_contract scripted_GetNext"
  by (auto simp: classifier_contract_def scripted_GetNext_def dest: read_script_nothing)

text \<open>
  Claim C3. In every reachable state of a tokenizer whose classifier keeps its contract,
  \<open>HasNext()\<close> is true if and only if a token is buffered at the cursor or the source
  may still yield one, whether "may still yield" is read as the end-of-input flag not
  being set or as the classifier having a token to give: \<open>HasNext()\<close> is never false
  while a token remains obtainable.
\<close>

theorem HasNext_iff:
  assumes "classifier_contract GetNext" and "reachable GetNext s"
  shows "(HasNext s \<longleftrightarrow> buffered_at_cursor s \<or> \<not> eof_reached (source s))
         \<and> (HasNext s \<longleftrightarrow> buffered_at_cursor s \<or> token_obtainable GetNext s)"
proof -
  have inv: "next_token_idx s \<le> length (token s)"
    "next_token_idx s = length (token s) \<longrightarrow> eof_reached (source s)"
    using reachable_lookahead [OF assms] by simp_all
  have b: "HasNext s \<longleftrightarrow> buffered_at_cursor s"
    by (auto simp: HasNext_def buffered_at_cursor_def)
  have some: "\<And>t src'. eof_reached (source s) \<Longrightarrow> GetNext (source s) \<noteq> Inr (Some t, src')"
    using assms(1) by (simp add: classifier_contract_def)
  have "\<not> HasNext s \<Longrightarrow> eof_reached (source s)"
    using inv by (simp add: HasNext_def)
  moreover have "eof_reached (source s) \<Longrightarrow> \<not> token_obtainable GetNext s"
    using some by (auto simp: token_obtainable_def split: sum.splits option.splits prod.splits)
  ultimately show ?thesis using b by blast
qed

theorem HasNext_iff_witness:
  "classifier_contract scripted_GetNext
   \<and> reachable scripted_GetNext
       \<lparr>source = scripted_source [] 2 True ''a '', token = [tok_a], next_token_idx = 1\<rparr>
   \<and> \<not> HasNext \<lparr>source = scripted_source [] 2 True ''a '', token = [tok_a], next_token_idx = 1\<rparr>
   \<and> \<not> buffered_at_cursor \<lparr>source = scripted_source [] 2 True ''a '', token = [tok_a], next_token_idx = 1\<rparr>
   \<and> \<not> token_obtainable scripted_GetNext
         \<lparr>source = scripted_source [] 2 True ''a '', token = [tok_a], next_token_idx = 1\<rparr>"
proof -
  let ?s0 = "\<lparr>source = scripted_source [Blank '' ''] 1 False ''a'', token = [tok_a], next_token_idx = 0\<rparr>"
  let ?s1 = "\<lparr>source = scripted_source [] 2 True ''a '', token = [tok_a], next_token_idx = 1\<rparr>"
  have c: "classifier_contract scripted_GetNext" by (rule scripted_GetNext_contract)
  have "StreamTokenizer_new scripted_GetNext [Lexeme tok_a, Blank '' ''] DEFAULT_RESERVED_CHARS = Inr ?s0"
    by (simp add: StreamTokenizer_new_def Init_def scripted_GetNext_def scripted_source_def
        tok_a_def)
  then have r0: "reachable scripted_GetNext ?s0" by (rule reachable.constructed)
  have "exec scripted_GetNext Call_Next ?s0 = Inr (Text ''a'', ?s1)"
    by (simp add: Next_def HasNext_def scripted_GetNext_def scripted_source_def tok_a_def)
  with r0 have r1: "reachable scripted_GetNext ?s1" by (rule reachable.called)
  show ?thesis
    using HasNext_iff [OF c r1] c r1
    by (simp add: HasNext_def buffered_at_cursor_def scripted_source_def tok_a_def)
qed

subsection \<open>Rewinding\<close>

text \<open>
  Claim C5, as the code has it. For every cursor position and every \<open>n\<close> whose double
  is a \<open>size_t\<close> (\<open>2n \<le> SIZE_MAX\<close>), \<open>Rewind(n)\<close> followed by \<open>Rewind(n)\<close> leaves the
  tokenizer as a single \<open>Rewind(2n)\<close> does, and the cursor is then the old one less
  \<open>2n\<close>, or 0 where that would be negative.
\<close>

theorem Rewind_n_twice:
  assumes "2 * n \<le> SIZE_MAX"
  shows "size_t_times 2 n = 2 * n
         \<and> Rewind_n n (Rewind_n n s) = Rewind_n (size_t_times 2 n) s
         \<and> next_token_idx (Rewind_n (size_t_times 2 n) s) = next_token_idx s - 2 * n"
proof -
  have "2 * n < 2 ^ 64" using assms by (simp add: SIZE_MAX_def)
  then have "size_t_times 2 n = 2 * n" by (simp add: size_t_times_def)
  then show ?thesis by (simp add: Rewind_n_def)
qed

text \<open>
  The claim as the spec words it is for every \<open>n\<close>. The parameter of \<open>Rewind\<close> is a
  \<open>size_t\<close>, and for \<open>n = 2^63\<close> the double wraps around to 0: from cursor 3, two calls of
  \<open>Rewind(n)\<close> leave the cursor at 0, and \<open>Rewind(2 * n)\<close> leaves it at 3.
\<close>

theorem Rewind_n_twice_counterexample:
  "(2 :: nat) ^ 63 \<le> SIZE_MAX
   \<and> size_t_times 2 (2 ^ 63) = 0
   \<and> next_token_idx
       (Rewind_n (2 ^ 63) (Rewind_n (2 ^ 63)
          \<lparr>source = scripted_source [] 5 True ''a = b'', token = [tok_a, tok_eq, tok_b],
           next_token_idx = 3\<rparr>)) = 0
   \<and> next_token_idx
       (Rewind_n (size_t_times 2 (2 ^ 63))
          \<lparr>source = scripted_source [] 5 True ''a = b'', token = [tok_a, tok_eq, tok_b],
           next_token_idx = 3\<rparr>) = 3"
  by (simp add: SIZE_MAX_def size_t_times_def Rewind_n_def)

theorem Rewind_n_twice_witness:
  "2 * (2 :: nat) \<le> SIZE_MAX
   \<and> size_t_times 2 2 = 4
   \<and> next_token_idx
       (Rewind_n 2 (Rewind_n 2
          \<lparr>source = scripted_source [] 5 True ''a = b'', token = [tok_a, tok_eq, tok_b],
           next_token_idx = 3\<rparr>)) = 0
   \<and> next_token_idx
       (Rewind_n (size_t_times 2 2)
          \<lparr>source = scripted_source [] 5 True ''a = b'', token = [tok_a, tok_eq, tok_b],
           next_token_idx = 3\<rparr>) = 0"
proof -
  have h: "2 * (2 :: nat) \<le> SIZE_MAX" by (simp add: SIZE_MAX_def)
  show ?thesis
    using h Rewind_n_twice
      [OF h, of "\<lparr>source = scripted_source [] 5 True ''a = b'', token = [tok_a, tok_eq, tok_b],
                  next_token_idx = 3\<rparr>"]
    by (simp add: Rewind_n_def size_t_times_def)
qed

text \<open>
  Claim C6. In every state in which \<open>HasNext()\<close> is true, a \<open>Next()\<close> that returns and a
  \<open>Putback()\<close> after it leave \<open>Peek()\<close> at the text that \<open>Next()\<close> returned, which is the
  text of the token at the cursor before the call; \<open>Next()\<close> fails to return only when
  the classifier, invoked for the token ahead, escalated a fatal error. \<open>Putback()\<close> is
  \<open>Rewind(1)\<close>.
\<close>

theorem Next_Putback_Peek:
  assumes "HasNext s"
  shows "(case Next GetNext s of
            Inl e \<Rightarrow> \<not> eof_reached (source s) \<and> at_last_slot s \<and> GetNext (source s) = Inl e
          | Inr (txt, s') \<Rightarrow> Peek (Putback s') = txt \<and> txt = tok (token s ! next_token_idx s))
         \<and> Putback s = Rewind_n 1 s"
  using Next_result [OF assms, of GetNext] assms
  by (auto simp: HasNext_def Peek_def Putback_def Rewind_n_def nth_append
      split: if_splits sum.splits option.splits prod.splits)

theorem Next_Putback_Peek_witness:
  "HasNext \<lparr>source = scripted_source [Lexeme tok_eq] 1 False ''a'', token = [tok_a], next_token_idx = 0\<rparr>
   \<and> Next scripted_GetNext
        \<lparr>source = scripted_source [Lexeme tok_eq] 1 False ''a'', token = [tok_a], next_token_idx = 0\<rparr> =
      Inr (''a'', \<lparr>source = scripted_source [] 3 False ''a='', token = [tok_a, tok_eq], next_token_idx = 1\<rparr>)
   \<and> Peek (Putback \<lparr>source = scripted_source [] 3 False ''a='', token = [tok_a, tok_eq], next_token_idx = 1\<rparr>) = ''a''"
  using Next_Putback_Peek [of "\<lparr>source = scripted_source [Lexeme tok_eq] 1 False ''a'', token = [tok_a], next_token_idx = 0\<rparr>" scripted_GetNext]
  by (simp add: HasNext_def at_last_slot_def scripted_GetNext_def scripted_source_def tok_a_def tok_eq_def Next_def
      Peek_def Putback_def Rewind_n_def)

text \<open>
  Re-reading: \<open>k\<close> calls of \<open>Next\<close> that stay within the history, and reach its end only
  if the end-of-input flag is set, return the buffered texts and move the cursor; they
  do so for every classifier, which is to say that they never invoke it.
\<close>

lemma Next_times_replay:
  assumes "next_token_idx s + k \<le> length (token s)"
    and "next_token_idx s + k < length (token s) \<or> eof_reached (source s)"
  shows "Next_times GetNext k s =
           Inr (map tok (take k (drop (next_token_idx s) (token s))),
                s\<lparr>next_token_idx := next_token_idx s + k\<rparr>)"
  using assms
proof (induction k arbitrary: s)
  case 0
  then show ?case by simp
next
  case (Suc k)
  let ?s' = "s\<lparr>next_token_idx := next_token_idx s + 1\<rparr>"
  have h: "HasNext s" using Suc.prems by (simp add: HasNext_def)
  have "eof_reached (source s) \<or> \<not> at_last_slot s"
    using Suc.prems by (auto simp: at_last_slot_def)
  then have n: "Next GetNext s = Inr (tok (token s ! next_token_idx s), ?s')"
    by (rule Next_without_fetch [OF h])
  have "Next_times GetNext k ?s' =
          Inr (map tok (take k (drop (next_token_idx ?s') (token ?s'))),
               ?s'\<lparr>next_token_idx := next_token_idx ?s' + k\<rparr>)"
    using Suc.prems by (intro Suc.IH) auto
  moreover have "token s ! next_token_idx s # take k (drop (Suc (next_token_idx s)) (token s))
                 = take (Suc k) (drop (next_token_idx s) (token s))"
    using h by (simp add: HasNext_def flip: Cons_nth_drop_Suc)
  ultimately show ?case using n
    by (simp flip: list.map(2))
qed

text \<open>
  Claim C9. \<open>Rewind()\<close>, \<open>Rewind(n)\<close> and \<open>Putback()\<close> change the cursor and nothing else:
  the history, the number of bytes read, the number of lines read, the end-of-input flag
  and the byte stream are as before. In a state whose cursor is within the history, and
  at its end only if the end-of-input flag is set, the positions that \<open>Rewind(n)\<close> went
  back over are re-read by as many calls of \<open>Next()\<close>, which return the buffered texts and
  end in the very state before the rewind, whatever the classifier: it is not invoked.
\<close>

theorem Rewind_moves_cursor_only:
  "Rewind s = s\<lparr>next_token_idx := 0\<rparr>
   \<and> Rewind_n n s = s\<lparr>next_token_idx := next_token_idx s - n\<rparr>
   \<and> Putback s = s\<lparr>next_token_idx := next_token_idx s - 1\<rparr>
   \<and> token (Rewind_n n s) = token s
   \<and> num_read (source (Rewind_n n s)) = num_read (source s)
   \<and> line_count (source (Rewind_n n s)) = line_count (source s)
   \<and> eof_reached (source (Rewind_n n s)) = eof_reached (source s)
   \<and> istrm (source (Rewind_n n s)) = istrm (source s)
   \<and> (next_token_idx s \<le> length (token s) \<and> (HasNext s \<or> eof_reached (source s)) \<longrightarrow>
        Next_times GetNext (min n (next_token_idx s)) (Rewind_n n s) =
          Inr (map tok (take (min n (next_token_idx s)) (drop (next_token_idx s - n) (token s))), s))"
proof -
  have frame: "Rewind_n m s = s\<lparr>next_token_idx := next_token_idx s - m\<rparr>" for m
    by (simp add: Rewind_n_def)
  have replay: "Next_times GetNext (min n (next_token_idx s)) (Rewind_n n s) =
          Inr (map tok (take (min n (next_token_idx s)) (drop (next_token_idx s - n) (token s))), s)"
    if inv: "next_token_idx s \<le> length (token s)" "HasNext s \<or> eof_reached (source s)"
  proof -
    let ?r = "s\<lparr>next_token_idx := next_token_idx s - n\<rparr>"
    have total: "next_token_idx ?r + min n (next_token_idx s) = next_token_idx s" by simp
    have "Next_times GetNext (min n (next_token_idx s)) ?r =
            Inr (map tok (take (min n (next_token_idx s)) (drop (next_token_idx ?r) (token ?r))),
                 ?r\<lparr>next_token_idx := next_token_idx ?r + min n (next_token_idx s)\<rparr>)"
      using inv unfolding HasNext_def by (intro Next_times_replay) (simp_all only: total, simp_all)
    then show ?thesis unfolding frame by (simp add: min_def)
  qed
  show ?thesis using frame replay by (simp add: Rewind_def Putback_def)
qed

theorem Rewind_moves_cursor_only_witness:
  "Next_times scripted_GetNext 2
     (Rewind_n 2 \<lparr>source = scripted_source [] 5 False ''a = b'', token = [tok_a, tok_eq, tok_b],
                  next_token_idx = 2\<rparr>) =
   Inr ([''a'', ''=''], \<lparr>source = scripted_source [] 5 False ''a = b'',
                         token = [tok_a, tok_eq, tok_b], next_token_idx = 2\<rparr>)
   \<and> next_token_idx (Rewind_n 2 \<lparr>source = scripted_source [] 5 False ''a = b'',
                  token = [tok_a, tok_eq, tok_b], next_token_idx = 2\<rparr>) = 0"
  using Rewind_moves_cursor_only
    [where s = "\<lparr>source = scripted_source [] 5 False ''a = b'', token = [tok_a, tok_eq, tok_b],
                  next_token_idx = 2\<rparr>"
       and n = 2 and GetNext = scripted_GetNext]
  by (simp add: Rewind_def Rewind_n_def Putback_def HasNext_def tok_a_def tok_eq_def)

subsection \<open>Queries at the cursor\<close>

text \<open>
  Claim C7. In every state in which \<open>HasNext()\<close> is false, \<open>Peek()\<close> returns the empty
  text, \<open>PeekTokenType()\<close> returns \<open>EOF_TYPE\<close>, \<open>PeekTokenStart()\<close> returns the number of
  bytes read and \<open>PeekTokenLineNumber()\<close> returns the number of lines read; each of the
  four calls leaves the state as it was.
\<close>

theorem Peek_at_end:
  assumes "\<not> HasNext s"
  shows "Peek s = [] \<and> PeekTokenType s = EOF_TYPE
         \<and> PeekTokenStart s = num_read (source s)
         \<and> PeekTokenLineNumber s = line_count (source s)
         \<and> exec GetNext Call_Peek s = Inr (Text [], s)
         \<and> exec GetNext Call_PeekTokenType s = Inr (Kind EOF_TYPE, s)
         \<and> exec GetNext Call_PeekTokenStart s = Inr (Size (num_read (source s)), s)
         \<and> exec GetNext Call_PeekTokenLineNumber s = Inr (Size (line_count (source s)), s)"
  using assms
  by (simp add: Peek_def PeekTokenType_def PeekTokenStart_def PeekTokenLineNumber_def)

theorem Peek_at_end_witness:
  "\<not> HasNext \<lparr>source = scripted_source [] 2 True ''a '', token = [tok_a], next_token_idx = 1\<rparr>
   \<and> PeekTokenStart \<lparr>source = scripted_source [] 2 True ''a '', token = [tok_a], next_token_idx = 1\<rparr> = 2
   \<and> Peek \<lparr>source = scripted_source [] 2 True ''a '', token = [tok_a], next_token_idx = 1\<rparr> = []"
  using Peek_at_end
    [of "\<lparr>source = scripted_source [] 2 True ''a '', token = [tok_a], next_token_idx = 1\<rparr>"]
  by (simp add: HasNext_def scripted_source_def)

text \<open>
  Claim C8, as the code has it. \<open>tellg()\<close> returns the \<open>curr_pos\<close> of the token just
  before the cursor, and 0 when the cursor is at 0. Directly after a \<open>Next()\<close> that
  returns, this is the position after the token that \<open>Next()\<close> consumed; a \<open>Putback()\<close>
  after it takes \<open>tellg()\<close> back to what it was before the \<open>Next()\<close>.
\<close>

theorem tellg_before_cursor:
  "(HasPrev s \<longrightarrow> tellg s = curr_pos (token s ! (next_token_idx s - 1)))
   \<and> (\<not> HasPrev s \<longrightarrow> tellg s = 0)
   \<and> (HasNext s \<longrightarrow>
        (case Next GetNext s of
           Inl e \<Rightarrow> \<not> eof_reached (source s) \<and> at_last_slot s \<and> GetNext (source s) = Inl e
         | Inr (txt, s') \<Rightarrow>
             txt = tok (token s ! next_token_idx s)
             \<and> tellg s' = curr_pos (token s ! next_token_idx s)
             \<and> tellg (Putback s') = tellg s))"
proof -
  have "case Next GetNext s of
           Inl e \<Rightarrow> \<not> eof_reached (source s) \<and> at_last_slot s \<and> GetNext (source s) = Inl e
         | Inr (txt, s') \<Rightarrow>
             txt = tok (token s ! next_token_idx s)
             \<and> tellg s' = curr_pos (token s ! next_token_idx s)
             \<and> tellg (Putback s') = tellg s" if h: "HasNext s"
    using h
  proof (cases rule: Next_cases [where GetNext = GetNext])
    case plain
    then show ?thesis by (simp add: tellg_def HasPrev_def Putback_def Rewind_n_def)
  next
    case (fetched t src')
    then show ?thesis using h
      by (auto simp: tellg_def HasPrev_def Putback_def Rewind_n_def HasNext_def nth_append)
  next
    case (exhausted src')
    then show ?thesis by (simp add: tellg_def HasPrev_def Putback_def Rewind_n_def)
  next
    case (fatal e)
    then show ?thesis by simp
  qed
  then show ?thesis by (simp add: tellg_def)
qed

text \<open>
  The claim as the spec words it speaks of the most recently consumed token in every
  state. A tokenizer on the lexemes \<open>a\<close> and \<open>=\<close> consumes \<open>a\<close>, whose \<open>curr_pos\<close> is 1;
  after \<open>Rewind()\<close> its \<open>tellg()\<close> is 0.
\<close>

theorem tellg_before_cursor_counterexample:
  "StreamTokenizer_new scripted_GetNext [Lexeme tok_a, Lexeme tok_eq] DEFAULT_RESERVED_CHARS =
     Inr \<lparr>source = scripted_source [Lexeme tok_eq] 1 False ''a'', token = [tok_a], next_token_idx = 0\<rparr>
   \<and> Next scripted_GetNext
        \<lparr>source = scripted_source [Lexeme tok_eq] 1 False ''a'', token = [tok_a], next_token_idx = 0\<rparr> =
      Inr (tok tok_a,
           \<lparr>source = scripted_source [] 3 False ''a='', token = [tok_a, tok_eq], next_token_idx = 1\<rparr>)
   \<and> curr_pos tok_a = 1
   \<and> tellg (Rewind \<lparr>source = scripted_source [] 3 False ''a='', token = [tok_a, tok_eq],
                     next_token_idx = 1\<rparr>) = 0"
  by (simp add: StreamTokenizer_new_def Init_def scripted_GetNext_def scripted_source_def
      HasNext_def Next_def tok_a_def tok_eq_def tellg_def HasPrev_def Rewind_def)

theorem tellg_before_cursor_witness:
  "HasNext \<lparr>source = scripted_source [Lexeme tok_eq] 1 False ''a'', token = [tok_a], next_token_idx = 0\<rparr>
   \<and> Next scripted_GetNext
        \<lparr>source = scripted_source [Lexeme tok_eq] 1 False ''a'', token = [tok_a], next_token_idx = 0\<rparr> =
      Inr (''a'', \<lparr>source = scripted_source [] 3 False ''a='', token = [tok_a, tok_eq], next_token_idx = 1\<rparr>)
   \<and> tellg \<lparr>source = scripted_source [] 3 False ''a='', token = [tok_a, tok_eq], next_token_idx = 1\<rparr> = 1"
  using tellg_before_cursor
    [where s = "\<lparr>source = scripted_source [Lexeme tok_eq] 1 False ''a'', token = [tok_a], next_token_idx = 0\<rparr>"
       and GetNext = scripted_GetNext]
  by (simp add: HasNext_def at_last_slot_def scripted_GetNext_def scripted_source_def tok_a_def
      tok_eq_def Next_def tellg_def HasPrev_def)

text \<open>
  Claim C10. After \<open>Rewind()\<close>, in any state, \<open>HasPrev()\<close> is false, \<open>tellg()\<close> returns 0,
  \<open>PeekPrev()\<close> returns the empty text, \<open>PeekPrevTokenStart()\<close> returns 0 and
  \<open>PeekPrevTokenType()\<close> returns \<open>EOF_TYPE\<close>.
\<close>

theorem after_Rewind_no_previous:
  "\<not> HasPrev (Rewind s) \<and> tellg (Rewind s) = 0 \<and> PeekPrev (Rewind s) = []
   \<and> PeekPrevTokenStart (Rewind s) = 0 \<and> PeekPrevTokenType (Rewind s) = EOF_TYPE"
  by (simp add: Rewind_def HasPrev_def tellg_def PeekPrev_def PeekPrevTokenStart_def
      PeekPrevTokenType_def)

end
